theory Spec2Isabelle
  imports Main "HOL-Library.Multiset"
begin

section \<open>Strings of the platform\<close>

text \<open>
  The server (\<^verbatim>\<open>src/api/server.js\<close>) is JavaScript on Node. Its strings are modelled as
  \<^typ>\<open>string\<close>, each \<^typ>\<open>char\<close> read as one code unit in the range U+0000 .. U+00FF
  (ASCII and Latin-1). Texts with code units above U+00FF are outside the model. The
  platform functions the handlers call are written out for this range.
\<close>

text \<open>\<^verbatim>\<open>String.prototype.toLowerCase\<close>: A-Z and the Latin-1 capitals U+00C0 .. U+00DE
  (without the multiplication sign U+00D7) move up by 32; everything else stays.\<close>

definition is_upper :: "char \<Rightarrow> bool" where
  "is_upper c =
     (let n = (of_char c :: nat)
      in (65 \<le> n \<and> n \<le> 90) \<or> (192 \<le> n \<and> n \<le> 222 \<and> n \<noteq> 215))"

definition to_lower :: "char \<Rightarrow> char" where
  "to_lower c = (if is_upper c then char_of ((of_char c :: nat) + 32) else c)"

definition toLowerCase :: "string \<Rightarrow> string" where
  "toLowerCase s = map to_lower s"

text \<open>White space as \<^verbatim>\<open>String.prototype.trim\<close> and the class \<^verbatim>\<open>\s\<close> read it: TAB, LF,
  VT, FF, CR, SPACE and NO-BREAK SPACE.\<close>

definition is_space :: "char \<Rightarrow> bool" where
  "is_space c = ((of_char c :: nat) \<in> {9, 10, 11, 12, 13, 32, 160})"

definition trim :: "string \<Rightarrow> string" where
  "trim s = rev (dropWhile is_space (rev (dropWhile is_space s)))"

text \<open>The class \<^verbatim>\<open>\w\<close> (without the unicode flag): ASCII letters, digits and the
  underscore.\<close>

definition is_word_char :: "char \<Rightarrow> bool" where
  "is_word_char c =
     (let n = (of_char c :: nat)
      in (48 \<le> n \<and> n \<le> 57) \<or> (65 \<le> n \<and> n \<le> 90) \<or> n = 95 \<or> (97 \<le> n \<and> n \<le> 122))"

section \<open>Regular expressions\<close>

text \<open>
  Both \<^verbatim>\<open>containsBadWords\<close> and the search handler build a pattern with
  \<^verbatim>\<open>new RegExp(source, 'i')\<close> from a string that is not escaped, so the string is read
  as pattern syntax. The pattern language is modelled for the fragment made of
  \<^item> the assertion \<^verbatim>\<open>\b\<close>,
  \<^item> the wildcard \<^verbatim>\<open>.\<close>,
  \<^item> characters that are not syntax characters, which match themselves.

  A source outside this fragment is handed to the parameter \<open>rx\<close>, which stands for
  the platform's constructor there: it either throws \<^verbatim>\<open>SyntaxError\<close> or gives the
  pattern's \<^verbatim>\<open>test\<close> function. Every theorem below holds for every \<open>rx\<close>.
\<close>

datatype js_error = SyntaxError

datatype atom = WordBoundary | AnyChar | Literal char

type_synonym regexp_engine = "string \<Rightarrow> js_error + (string \<Rightarrow> bool)"

text \<open>The syntax characters of the pattern grammar:
  \<^verbatim>\<open>^ $ \ . * + ? ( ) [ ] { } |\<close>.\<close>

definition syntax_chars :: "char list" where
  "syntax_chars = ''^$.*+?()[]{}|'' @ [CHR 0x5C]"

definition is_syntax_char :: "char \<Rightarrow> bool" where
  "is_syntax_char c = (c \<in> set syntax_chars)"

fun parse_pattern :: "string \<Rightarrow> atom list option" where
  "parse_pattern [] = Some []"
| "parse_pattern (c # cs) =
     (if c = CHR 0x5C then
        (case cs of
           [] \<Rightarrow> None
         | d # ds \<Rightarrow>
             if d = CHR ''b'' then map_option (Cons WordBoundary) (parse_pattern ds)
             else None)
      else if c = CHR ''.'' then map_option (Cons AnyChar) (parse_pattern cs)
      else if is_syntax_char c then None
      else map_option (Cons (Literal c)) (parse_pattern cs))"

text \<open>\<^verbatim>\<open>Canonicalize\<close> of the flag \<^verbatim>\<open>i\<close> (without the unicode flag): the code unit of
  the character's upper case when that is one code unit, the character itself
  otherwise. The upper case of U+00FF is U+0178, that of U+00B5 is U+039C, and that of
  U+00DF is two letters.\<close>

definition is_lower :: "char \<Rightarrow> bool" where
  "is_lower c =
     (let n = (of_char c :: nat)
      in (97 \<le> n \<and> n \<le> 122) \<or> (224 \<le> n \<and> n \<le> 254 \<and> n \<noteq> 247))"

definition canonicalize :: "char \<Rightarrow> nat" where
  "canonicalize c =
     (let n = (of_char c :: nat)
      in if n = 255 then 376
         else if n = 181 then 924
         else if is_lower c then n - 32
         else n)"

text \<open>The wildcard matches every character but a line terminator (LF, CR).\<close>

definition is_line_terminator :: "char \<Rightarrow> bool" where
  "is_line_terminator c = ((of_char c :: nat) \<in> {10, 13})"

text \<open>\<^verbatim>\<open>\b\<close> holds at index \<open>i\<close> when exactly one of the characters before and at
  \<open>i\<close> is a word character; outside the string there is none.\<close>

definition word_before :: "string \<Rightarrow> nat \<Rightarrow> bool" where
  "word_before s i = (0 < i \<and> i \<le> length s \<and> is_word_char (s ! (i - 1)))"

definition word_after :: "string \<Rightarrow> nat \<Rightarrow> bool" where
  "word_after s i = (i < length s \<and> is_word_char (s ! i))"

definition is_word_boundary :: "string \<Rightarrow> nat \<Rightarrow> bool" where
  "is_word_boundary s i = (word_before s i \<noteq> word_after s i)"

fun matches_at :: "atom list \<Rightarrow> string \<Rightarrow> nat \<Rightarrow> bool" where
  "matches_at [] s i = True"
| "matches_at (WordBoundary # as) s i = (is_word_boundary s i \<and> matches_at as s i)"
| "matches_at (AnyChar # as) s i =
     (i < length s \<and> \<not> is_line_terminator (s ! i) \<and> matches_at as s (Suc i))"
| "matches_at (Literal c # as) s i =
     (i < length s \<and> canonicalize (s ! i) = canonicalize c \<and> matches_at as s (Suc i))"

text \<open>\<^verbatim>\<open>RegExp.prototype.test\<close> of a pattern without the flags \<^verbatim>\<open>g\<close> and \<^verbatim>\<open>y\<close>: a
  match may start at any index.\<close>

definition regexp_test :: "atom list \<Rightarrow> string \<Rightarrow> bool" where
  "regexp_test as s = list_ex (matches_at as s) [0..<Suc (length s)]"

text \<open>\<^verbatim>\<open>new RegExp(source, 'i')\<close>, as the \<^verbatim>\<open>test\<close> function of the pattern it builds.\<close>

definition RegExp_i :: "regexp_engine \<Rightarrow> string \<Rightarrow> js_error + (string \<Rightarrow> bool)" where
  "RegExp_i rx source =
     (case parse_pattern source of
        Some as \<Rightarrow> Inr (regexp_test as)
      | None \<Rightarrow> rx source)"

section \<open>The moderation filter\<close>

text \<open>
  \<^verbatim>\<open>
  function containsBadWords(text) {
      if (!text) return false;
      const lowerText = text.toLowerCase();
      const cleanText = lowerText
          .replace(/[.,\/#!$%\^&\*;:{}=\-_`~()]/g, '')
          .replace(/\s+/g, ' ')
          .trim();
      return badWords.some(word => {
          const wordLower = word.trim().toLowerCase();
          if (!wordLower) return false;
          const pattern = new RegExp(`\\b${wordLower}\\b`, 'i');
          return pattern.test(lowerText) || pattern.test(cleanText);
      });
  }
  \<close>
  The global \<^verbatim>\<open>badWords\<close> (the lines of the word list, read at start) is a parameter.
  An absent text (\<^verbatim>\<open>undefined\<close>, \<^verbatim>\<open>null\<close>) is \<^const>\<open>None\<close>. The result is the value
  returned, or the error thrown by the constructor of the pattern.
\<close>

definition punctuation :: "char list" where
  "punctuation = ''.,/#!$%^&*;:{}=-_~()'' @ [CHR 0x60]"

definition remove_punctuation :: "string \<Rightarrow> string" where
  "remove_punctuation s = filter (\<lambda>c. c \<notin> set punctuation) s"

text \<open>\<^verbatim>\<open>.replace(/\s+/g, ' ')\<close>: every maximal run of white space becomes one space
  (written where the run ends).\<close>

fun collapse_spaces :: "string \<Rightarrow> string" where
  "collapse_spaces [] = []"
| "collapse_spaces [c] = (if is_space c then [CHR 0x20] else [c])"
| "collapse_spaces (c # d # cs) =
     (if is_space c then
        (if is_space d then collapse_spaces (d # cs) else CHR 0x20 # collapse_spaces (d # cs))
      else c # collapse_spaces (d # cs))"

definition cleanText :: "string \<Rightarrow> string" where
  "cleanText lowerText = trim (collapse_spaces (remove_punctuation lowerText))"

definition word_pattern :: "string \<Rightarrow> string" where
  "word_pattern wordLower = [CHR 0x5C, CHR ''b''] @ wordLower @ [CHR 0x5C, CHR ''b'']"

text \<open>\<^verbatim>\<open>badWords.some(...)\<close>: the words in order, stopping at the first that matches
  or throws.\<close>

fun some_badWord :: "regexp_engine \<Rightarrow> string \<Rightarrow> string \<Rightarrow> string list \<Rightarrow> js_error + bool" where
  "some_badWord rx lowerText clean [] = Inr False"
| "some_badWord rx lowerText clean (word # badWords) =
     (let wordLower = toLowerCase (trim word)
      in if wordLower = [] then some_badWord rx lowerText clean badWords
         else
           (case RegExp_i rx (word_pattern wordLower) of
              Inl e \<Rightarrow> Inl e
            | Inr test \<Rightarrow>
                if test lowerText \<or> test clean then Inr True
                else some_badWord rx lowerText clean badWords))"

definition containsBadWords :: "regexp_engine \<Rightarrow> string list \<Rightarrow> string option \<Rightarrow> js_error + bool" where
  "containsBadWords rx badWords text =
     (case text of
        None \<Rightarrow> Inr False
      | Some t \<Rightarrow>
          if t = [] then Inr False
          else
            (let lowerText = toLowerCase t
             in some_badWord rx lowerText (cleanText lowerText) badWords))"

section \<open>The file-type validator\<close>

text \<open>
  \<^verbatim>\<open>
  function isValidFileType(url) {
      const validExtensions = ['.pdf', '.doc', '.docx', '.txt'];
      const extension = path.extname(url).toLowerCase();
      return validExtensions.includes(extension);
  }
  \<close>
  \<^verbatim>\<open>path.extname\<close> is Node's, for POSIX paths: it looks at the last component of the
  path (trailing slashes left out), and returns that component from its last dot on. It
  returns the empty string when the component has no dot, when its only dot is its first
  character, and when the component is \<^verbatim>\<open>..\<close>.
\<close>

definition strip_trailing_slashes :: "string \<Rightarrow> string" where
  "strip_trailing_slashes p = rev (dropWhile (\<lambda>c. c = CHR ''/'') (rev p))"

definition last_component :: "string \<Rightarrow> string" where
  "last_component p = rev (takeWhile (\<lambda>c. c \<noteq> CHR ''/'') (rev (strip_trailing_slashes p)))"

definition extname :: "string \<Rightarrow> string" where
  "extname p =
     (let b = last_component p;
          after_dot = rev (takeWhile (\<lambda>c. c \<noteq> CHR ''.'') (rev b));
          before_dot = rev (drop 1 (dropWhile (\<lambda>c. c \<noteq> CHR ''.'') (rev b)))
      in if CHR ''.'' \<notin> set b then []
         else if before_dot = [] then []
         else if b = ''..'' then []
         else CHR ''.'' # after_dot)"

definition validExtensions :: "string list" where
  "validExtensions = [''.pdf'', ''.doc'', ''.docx'', ''.txt'']"

definition isValidFileType :: "string \<Rightarrow> bool" where
  "isValidFileType url = (toLowerCase (extname url) \<in> set validExtensions)"

text \<open>The thumbnail's check is written inline in the upload handler:
  \<^verbatim>\<open>validImageExtensions.includes(path.extname(thumbnailUrl).toLowerCase())\<close>.\<close>

definition validImageExtensions :: "string list" where
  "validImageExtensions = [''.webp'', ''.png'', ''.jpeg'', ''.jpg'']"

definition isValidThumbnailType :: "string \<Rightarrow> bool" where
  "isValidThumbnailType thumbnailUrl =
     (toLowerCase (extname thumbnailUrl) \<in> set validImageExtensions)"

section \<open>The record store and the handlers\<close>

text \<open>
  A document of the collection, with the fields of \<^verbatim>\<open>patternSchema\<close>. The time stamp is
  in milliseconds. The like count is a JavaScript number, an IEEE double; it is modelled
  by the integer it holds (fractions, NaN and infinities, which the handlers never store,
  are outside the model).
\<close>

record Pattern =
  patternUrl :: string
  patternName :: string
  authorName :: string
  description :: string
  slug :: string
  dateUploaded :: int
  thumbnailUrl :: "string option"
  likes :: int

text \<open>The collection is the list of its documents, oldest insertion first. Errors of
  the database itself (a lost connection) are not modelled.\<close>

type_synonym store = "Pattern list"

text \<open>\<^verbatim>\<open>Pattern.findOne({ slug })\<close>.\<close>

definition findOne :: "store \<Rightarrow> string \<Rightarrow> Pattern option" where
  "findOne db s = find (\<lambda>p. slug p = s) db"

text \<open>\<^verbatim>\<open>pattern.save()\<close> of a document that \<^const>\<open>findOne\<close> loaded: the document it was
  loaded from (the first with that slug) is replaced.\<close>

fun save :: "Pattern \<Rightarrow> store \<Rightarrow> store" where
  "save p [] = []"
| "save p (q # db) = (if slug q = slug p then p # db else q # save p db)"

text \<open>A field of a JSON body or a query parameter: absent, or a string. \<^verbatim>\<open>!v\<close> holds
  of an absent field and of the empty string. (Values of other JSON types are outside
  the model.)\<close>

definition falsy :: "string option \<Rightarrow> bool" where
  "falsy v = (case v of None \<Rightarrow> True | Some s \<Rightarrow> s = [])"

record upload_body =
  b_patternUrl :: "string option"
  b_patternName :: "string option"
  b_authorName :: "string option"
  b_description :: "string option"
  b_slug :: "string option"
  b_thumbnailUrl :: "string option"

text \<open>A response: the status and the JSON body.\<close>

datatype json =
    Message string
  | Error string
  | Likes int
  | Patterns "Pattern list"

type_synonym response = "nat \<times> json"

text \<open>\<^verbatim>\<open>a || b\<close> on results that may throw: \<open>b\<close> counts only when \<open>a\<close> returned
  false.\<close>

definition or_else :: "js_error + bool \<Rightarrow> js_error + bool \<Rightarrow> js_error + bool" where
  "or_else a b =
     (case a of
        Inl e \<Rightarrow> Inl e
      | Inr found \<Rightarrow> if found then Inr True else b)"

text \<open>
  \<^verbatim>\<open>app.post('/upload', ...)\<close>. The checks in the order of the source; every exit
  before \<^verbatim>\<open>pattern.save()\<close> leaves the collection as it was, and an error thrown inside
  the \<^verbatim>\<open>try\<close> block becomes status 500. \<open>now\<close> is the clock's reading, the default of
  \<^verbatim>\<open>dateUploaded\<close>.
\<close>

definition missing_required :: "upload_body \<Rightarrow> bool" where
  "missing_required body =
     (falsy (b_patternUrl body) \<or> falsy (b_patternName body) \<or> falsy (b_authorName body)
        \<or> falsy (b_description body) \<or> falsy (b_slug body))"

definition bad_words_in_fields :: "regexp_engine \<Rightarrow> string list \<Rightarrow> upload_body \<Rightarrow> js_error + bool" where
  "bad_words_in_fields rx badWords body =
     or_else (containsBadWords rx badWords (b_patternUrl body))
       (or_else (containsBadWords rx badWords (b_patternName body))
          (or_else (containsBadWords rx badWords (b_authorName body))
             (containsBadWords rx badWords (b_description body))))"

definition new_Pattern :: "int \<Rightarrow> upload_body \<Rightarrow> Pattern" where
  "new_Pattern now body =
     \<lparr> patternUrl = the (b_patternUrl body),
       patternName = the (b_patternName body),
       authorName = the (b_authorName body),
       description = the (b_description body),
       slug = the (b_slug body),
       dateUploaded = now,
       thumbnailUrl = b_thumbnailUrl body,
       likes = 0 \<rparr>"

definition upload :: "regexp_engine \<Rightarrow> string list \<Rightarrow> int \<Rightarrow> store \<Rightarrow> upload_body \<Rightarrow> store \<times> response" where
  "upload rx badWords now db body =
     (if missing_required body then
        (db, (400, Error ''Pattern URL, name, author name, and description are required''))
      else
        (case findOne db (the (b_slug body)) of
           Some existingPattern \<Rightarrow>
             (db, (400, Error ''This pattern ID already exists. Please try again.''))
         | None \<Rightarrow>
             (case bad_words_in_fields rx badWords body of
                Inl e \<Rightarrow> (db, (500, Error ''Server error''))
              | Inr found \<Rightarrow>
                  if found then (db, (400, Error ''Inappropriate Language Detected''))
                  else if \<not> isValidFileType (the (b_patternUrl body)) then
                    (db, (400, Error ''Invalid file type. Only PDF, DOC, DOCX, and TXT files are allowed.''))
                  else if \<not> falsy (b_thumbnailUrl body)
                            \<and> \<not> isValidThumbnailType (the (b_thumbnailUrl body)) then
                    (db, (400, Error ''Invalid thumbnail file type. Only .webp, .png, .jpeg, and .jpg are allowed.''))
                  else
                    (db @ [new_Pattern now body],
                     (201, Message ''Pattern uploaded successfully'')))))"

text \<open>
  Addition of doubles rounds the exact sum to the nearest double, a tie to the one with
  the even significand. Every integer of magnitude up to \<open>2 ^ 53\<close> is a double; a
  larger one is a double when it is a multiple of its quantum, the power of two that
  leaves 53 bits. (The sum of a double and 1 stays below the overflow threshold.)
\<close>

function quantum :: "int \<Rightarrow> int" where
  "quantum a = (if a < 2 ^ 53 then 1 else 2 * quantum (a div 2))"
  by pat_completeness auto
termination
  by (relation "measure nat") auto

definition double_round :: "int \<Rightarrow> int" where
  "double_round x =
     (let a = \<bar>x\<bar>
      in if a \<le> 2 ^ 53 then x
         else
           (let q = quantum a;
                m = a div q;
                r = a mod q;
                m' = (if q < 2 * r \<or> (2 * r = q \<and> odd m) then m + 1 else m)
            in sgn x * (m' * q)))"

text \<open>
  \<^verbatim>\<open>app.post('/like/:slug', ...)\<close>:
  \<^verbatim>\<open>pattern.likes = (pattern.likes || 0) + 1; await pattern.save();\<close>
\<close>

definition like :: "store \<Rightarrow> string \<Rightarrow> store \<times> response" where
  "like db s =
     (case findOne db s of
        None \<Rightarrow> (db, (404, Error ''Pattern not found''))
      | Some p \<Rightarrow>
          (let p' = p\<lparr>likes := double_round ((if likes p = 0 then 0 else likes p) + 1)\<rparr>
           in (save p' db, (200, Likes (likes p')))))"

text \<open>
  \<^verbatim>\<open>app.get('/search', ...)\<close>. The query is the source of the pattern, as typed.
  The database applies the pattern to the three fields of every document; the model
  uses the pattern's own \<^verbatim>\<open>test\<close> for that (the database's dialect reads plain
  characters under the flag \<^verbatim>\<open>i\<close> in the same way).
  \<^verbatim>\<open>.sort({ dateUploaded: -1 })\<close> is modelled by a stable sort; the database leaves the
  order of documents with equal time stamps open.
\<close>

definition sort_newest_first :: "Pattern list \<Rightarrow> Pattern list" where
  "sort_newest_first ps = sort_key (\<lambda>p. - dateUploaded p) ps"

definition search :: "regexp_engine \<Rightarrow> store \<Rightarrow> string option \<Rightarrow> response" where
  "search rx db query =
     (if falsy query then (400, Error ''Search query is required'')
      else
        (case RegExp_i rx (the query) of
           Inl e \<Rightarrow> (500, Error ''Server error'')
         | Inr searchRegex \<Rightarrow>
             (200, Patterns (sort_newest_first
                (filter (\<lambda>p. searchRegex (patternName p) \<or> searchRegex (authorName p)
                           \<or> searchRegex (description p)) db)))))"

section \<open>The specification's notions\<close>

text \<open>
  The definitions of this section follow the words of the specification, not the code;
  the theorems compare the two.
\<close>

text \<open>An occurrence of \<open>w\<close> in \<open>s\<close> at index \<open>i\<close>, letters compared without regard
  to case.\<close>

definition occurs_at :: "string \<Rightarrow> string \<Rightarrow> nat \<Rightarrow> bool" where
  "occurs_at w s i =
     (i + length w \<le> length s \<and> toLowerCase (take (length w) (drop i s)) = toLowerCase w)"

text \<open>"A case-insensitive whole-word match (word-boundary anchored on both sides)".\<close>

definition whole_word_at :: "string \<Rightarrow> string \<Rightarrow> nat \<Rightarrow> bool" where
  "whole_word_at w s i =
     (occurs_at w s i \<and> is_word_boundary s i \<and> is_word_boundary s (i + length w))"

definition whole_word_in :: "string \<Rightarrow> string \<Rightarrow> bool" where
  "whole_word_in w s = list_ex (whole_word_at w s) [0..<Suc (length s)]"

text \<open>The moderation filter of section 4.2: false on an empty or absent text; otherwise
  true exactly when some blocked term, trimmed and lowercased and skipped if empty,
  matches as a whole word in the lowercased text or in its stripped variant.\<close>

definition spec_containsBlockedTerm :: "string list \<Rightarrow> string option \<Rightarrow> bool" where
  "spec_containsBlockedTerm blocked text =
     (case text of
        None \<Rightarrow> False
      | Some t \<Rightarrow>
          t \<noteq> [] \<and>
          list_ex (\<lambda>b. let w = toLowerCase (trim b)
                       in w \<noteq> [] \<and> (whole_word_in w (toLowerCase t)
                                       \<or> whole_word_in w (cleanText (toLowerCase t))))
            blocked)"

text \<open>"A standalone word (surrounded by non-word characters or string boundaries)".\<close>

definition standalone_at :: "string \<Rightarrow> string \<Rightarrow> nat \<Rightarrow> bool" where
  "standalone_at w t i =
     (occurs_at w t i \<and> \<not> word_before t i \<and> \<not> word_after t (i + length w))"

definition standalone_word_in :: "string \<Rightarrow> string \<Rightarrow> bool" where
  "standalone_word_in w t = list_ex (standalone_at w t) [0..<Suc (length t)]"

text \<open>"The term appears only as a substring of a larger word": it occurs, and every
  occurrence has a word character next to it.\<close>

definition never_standalone :: "string \<Rightarrow> string \<Rightarrow> bool" where
  "never_standalone w t = (\<not> standalone_word_in w t)"

definition only_inside_larger_words :: "string \<Rightarrow> string \<Rightarrow> bool" where
  "only_inside_larger_words w t =
     (list_ex (occurs_at w t) [0..<Suc (length t)] \<and> never_standalone w t)"

text \<open>A term without pattern syntax, and one that begins and ends with a word
  character.\<close>

definition plain :: "string \<Rightarrow> bool" where
  "plain w = list_all (\<lambda>c. \<not> is_syntax_char c) w"

definition plain_term :: "string \<Rightarrow> bool" where
  "plain_term b = plain (toLowerCase (trim b))"

definition wordlike :: "string \<Rightarrow> bool" where
  "wordlike w = (w \<noteq> [] \<and> is_word_char (hd w) \<and> is_word_char (last w))"

text \<open>"Contains \<open>q\<close> as a case-insensitive unanchored substring".\<close>

definition contains_ci :: "string \<Rightarrow> string \<Rightarrow> bool" where
  "contains_ci q s = list_ex (occurs_at q s) [0..<Suc (length s)]"

definition spec_search_match :: "string \<Rightarrow> Pattern \<Rightarrow> bool" where
  "spec_search_match q p =
     (contains_ci q (patternName p) \<or> contains_ci q (authorName p)
        \<or> contains_ci q (description p))"

text \<open>"Descending by creation time (newest first)".\<close>

definition newest_first :: "Pattern list \<Rightarrow> bool" where
  "newest_first ps = sorted_wrt (\<lambda>p q. dateUploaded q \<le> dateUploaded p) ps"

text \<open>"The extension (substring after the final \<^verbatim>\<open>.\<close>)"; none when the string has no
  dot. It is written with its dot, as the allow-lists are.\<close>

definition spec_extension :: "string \<Rightarrow> string option" where
  "spec_extension url =
     (if CHR ''.'' \<in> set url
      then Some (CHR ''.'' # rev (takeWhile (\<lambda>c. c \<noteq> CHR ''.'') (rev url)))
      else None)"

definition spec_accepts :: "string list \<Rightarrow> string \<Rightarrow> bool" where
  "spec_accepts allowed url =
     (case spec_extension url of
        None \<Rightarrow> False
      | Some e \<Rightarrow> toLowerCase e \<in> set allowed)"

text \<open>Two strings that differ only in the capitalization of letters.\<close>

definition same_letter :: "char \<Rightarrow> char \<Rightarrow> bool" where
  "same_letter a b = (a = b \<or> (is_upper a \<and> b = to_lower a) \<or> (is_upper b \<and> a = to_lower b))"

definition differ_only_in_case :: "string \<Rightarrow> string \<Rightarrow> bool" where
  "differ_only_in_case s t = list_all2 same_letter s t"

text \<open>The unique index of the schema (\<^verbatim>\<open>slug: { type: String, unique: true }\<close>): no two
  documents of the collection have the same slug.\<close>

definition unique_slugs :: "store \<Rightarrow> bool" where
  "unique_slugs db = distinct (map slug db)"

text \<open>The code of the lower-case character from the canonical code of a character (used
  in the proofs only).\<close>

definition lower_of_canonical :: "nat \<Rightarrow> nat" where
  "lower_of_canonical y =
     (if y = 376 then 255 else if y = 924 then 181
      else if (65 \<le> y \<and> y \<le> 90) \<or> (192 \<le> y \<and> y \<le> 222 \<and> y \<noteq> 215) then y + 32 else y)"

text \<open>A pattern engine for closed examples; the examples stay inside the modelled
  fragment, where it is never asked.\<close>

definition no_engine :: regexp_engine where
  "no_engine source = Inl SyntaxError"

text \<open>The document with one like more, when its slug is \<open>s\<close>.\<close>

definition liked :: "string \<Rightarrow> Pattern \<Rightarrow> Pattern" where
  "liked s q = (if slug q = s then q\<lparr>likes := likes q + 1\<rparr> else q)"

text \<open>The request and the document of the specification's example.\<close>

definition example_body :: upload_body where
  "example_body =
     \<lparr> b_patternUrl = Some ''a.pdf'', b_patternName = Some ''Highland Reel'',
       b_authorName = Some ''A'', b_description = Some ''trad tune'',
       b_slug = Some ''s1'', b_thumbnailUrl = None \<rparr>"

definition example_doc :: Pattern where
  "example_doc = new_Pattern 0 example_body"

section \<open>Characters and case\<close>

lemma of_char_lt_256: "(of_char c :: nat) < 256"
  using range_nat_of_char by auto

lemma upper_bound: "is_upper c \<Longrightarrow> (of_char c :: nat) + 32 < 256"
  unfolding is_upper_def Let_def by arith

lemma upper_code: "is_upper c \<Longrightarrow> (of_char (to_lower c) :: nat) = of_char c + 32"
  using upper_bound [of c] by (simp add: to_lower_def)

lemma upper_lower: "is_upper c \<Longrightarrow> is_lower (to_lower c)"
  unfolding is_lower_def Let_def
  by (simp only: upper_code) (simp add: is_upper_def Let_def)

lemma upper_not_special:
  "is_upper c \<Longrightarrow> \<not> is_lower c \<and> (of_char c :: nat) \<noteq> 255 \<and> (of_char c :: nat) \<noteq> 181"
  unfolding is_upper_def is_lower_def Let_def by arith

lemma lower_not_special:
  "is_lower c \<Longrightarrow> \<not> is_upper c \<and> (of_char c :: nat) \<noteq> 255 \<and> (of_char c :: nat) \<noteq> 181
     \<and> 32 \<le> (of_char c :: nat)"
  unfolding is_upper_def is_lower_def Let_def by arith

lemma lower_minus:
  "is_lower c \<Longrightarrow> (65 \<le> (of_char c :: nat) - 32 \<and> (of_char c :: nat) - 32 \<le> 90)
       \<or> (192 \<le> (of_char c :: nat) - 32 \<and> (of_char c :: nat) - 32 \<le> 222 \<and> (of_char c :: nat) - 32 \<noteq> 215)"
  unfolding is_lower_def Let_def by arith

lemma canonicalize_to_lower: "canonicalize (to_lower c) = canonicalize c"
proof (cases "is_upper c")
  case True
  from upper_lower [OF True] lower_not_special [of "to_lower c"]
  have "canonicalize (to_lower c) = (of_char (to_lower c) :: nat) - 32"
    by (simp add: canonicalize_def)
  also have "\<dots> = of_char c" by (simp add: upper_code [OF True])
  also have "\<dots> = canonicalize c"
    using upper_not_special [OF True] by (simp add: canonicalize_def)
  finally show ?thesis .
next
  case False
  then show ?thesis by (simp add: to_lower_def)
qed

lemma to_lower_of_canonical:
  "(of_char (to_lower c) :: nat) = lower_of_canonical (canonicalize c)"
proof -
  let ?n = "of_char c :: nat"
  have lt: "?n < 256" by (rule of_char_lt_256)
  consider (y) "?n = 255" | (mu) "?n = 181" | (lower) "is_lower c" | (upper) "is_upper c"
    | (other) "?n \<noteq> 255" "?n \<noteq> 181" "\<not> is_lower c" "\<not> is_upper c"
    by blast
  then show ?thesis
  proof cases
    case y
    then have "\<not> is_upper c" by (simp add: is_upper_def)
    with y show ?thesis
      by (simp add: to_lower_def canonicalize_def lower_of_canonical_def)
  next
    case mu
    then have "\<not> is_upper c" by (simp add: is_upper_def)
    with mu show ?thesis
      by (simp add: to_lower_def canonicalize_def lower_of_canonical_def)
  next
    case lower
    from lower_not_special [OF lower] have c: "canonicalize c = ?n - 32" and nu: "\<not> is_upper c"
      and ge: "32 \<le> ?n"
      using lower by (simp_all add: canonicalize_def)
    from lt have "?n - 32 \<noteq> 376" "?n - 32 \<noteq> 924" by arith+
    with lower_minus [OF lower] ge have "lower_of_canonical (?n - 32) = ?n"
      by (simp add: lower_of_canonical_def)
    with c nu show ?thesis by (simp add: to_lower_def)
  next
    case upper
    from upper_not_special [OF upper] have c: "canonicalize c = ?n"
      by (simp add: canonicalize_def)
    from lt have "?n \<noteq> 376" "?n \<noteq> 924" by arith+
    moreover from upper
    have "(65 \<le> ?n \<and> ?n \<le> 90) \<or> (192 \<le> ?n \<and> ?n \<le> 222 \<and> ?n \<noteq> 215)"
      by (simp add: is_upper_def Let_def)
    ultimately have "lower_of_canonical ?n = ?n + 32"
      by (simp add: lower_of_canonical_def)
    with c show ?thesis by (simp add: upper_code [OF upper])
  next
    case other
    then have c: "canonicalize c = ?n" by (simp add: canonicalize_def)
    from lt have "?n \<noteq> 376" "?n \<noteq> 924" by arith+
    moreover from other
    have "\<not> ((65 \<le> ?n \<and> ?n \<le> 90) \<or> (192 \<le> ?n \<and> ?n \<le> 222 \<and> ?n \<noteq> 215))"
      by (simp add: is_upper_def Let_def)
    ultimately have "lower_of_canonical ?n = ?n"
      by (simp only: lower_of_canonical_def if_False)
    with c other show ?thesis by (simp add: to_lower_def)
  qed
qed

text \<open>Two characters are equal under the flag \<^verbatim>\<open>i\<close> exactly when their lower cases are
  equal.\<close>

lemma canonicalize_eq_iff:
  "canonicalize a = canonicalize b \<longleftrightarrow> to_lower a = to_lower b"
proof
  assume "canonicalize a = canonicalize b"
  then have "(of_char (to_lower a) :: nat) = of_char (to_lower b)"
    by (simp only: to_lower_of_canonical)
  then show "to_lower a = to_lower b" by simp
next
  assume "to_lower a = to_lower b"
  then have "canonicalize (to_lower a) = canonicalize (to_lower b)" by simp
  then show "canonicalize a = canonicalize b" by (simp only: canonicalize_to_lower)
qed

lemma not_upper_to_lower: "\<not> is_upper (to_lower c)"
proof (cases "is_upper c")
  case True
  from lower_not_special [OF upper_lower [OF True]] show ?thesis by simp
next
  case False
  then show ?thesis by (simp add: to_lower_def)
qed

lemma to_lower_idem: "to_lower (to_lower c) = to_lower c"
  using not_upper_to_lower [of c] by (simp add: to_lower_def [of "to_lower c"])

lemma upper_word_char: "is_upper c \<Longrightarrow> is_word_char (to_lower c) = is_word_char c"
  unfolding is_word_char_def Let_def
  by (simp only: upper_code) (simp add: is_upper_def Let_def, arith)

lemma is_word_char_to_lower: "is_word_char (to_lower c) = is_word_char c"
  by (cases "is_upper c") (simp_all add: upper_word_char, simp add: to_lower_def)

section \<open>Patterns built from plain terms\<close>

lemma plain_Cons: "plain (c # w) = (\<not> is_syntax_char c \<and> plain w)"
  by (simp add: plain_def)

lemma not_syntax_char: "\<not> is_syntax_char c \<Longrightarrow> c \<noteq> CHR 0x5C \<and> c \<noteq> CHR ''.''"
  by (auto simp: is_syntax_char_def syntax_chars_def)

lemma parse_pattern_plain:
  "plain w \<Longrightarrow> parse_pattern (w @ rest) = map_option ((@) (map Literal w)) (parse_pattern rest)"
proof (induction w)
  case Nil
  show ?case by (simp add: option.map_ident)
next
  case (Cons c w)
  from Cons.prems have c: "\<not> is_syntax_char c" and w: "plain w"
    by (simp_all add: plain_Cons)
  from not_syntax_char [OF c] c Cons.IH [OF w] show ?case
    by (simp add: option.map_comp comp_def)
qed

lemma parse_word_pattern:
  "plain w \<Longrightarrow> parse_pattern (word_pattern w) = Some (WordBoundary # map Literal w @ [WordBoundary])"
  using parse_pattern_plain [of w "[CHR 0x5C, CHR ''b'']"]
  by (simp add: word_pattern_def)

lemma parse_plain_query: "plain q \<Longrightarrow> parse_pattern q = Some (map Literal q)"
  using parse_pattern_plain [of q "[]"] by simp

lemma occurs_at_Nil: "occurs_at [] s i = (i \<le> length s)"
  by (simp add: occurs_at_def toLowerCase_def)

lemma occurs_at_Cons:
  "occurs_at (c # w) s i = (i < length s \<and> to_lower (s ! i) = to_lower c \<and> occurs_at w s (Suc i))"
proof (cases "i < length s")
  case True
  then have "drop i s = s ! i # drop (Suc i) s" by (simp add: Cons_nth_drop_Suc)
  with True show ?thesis by (auto simp: occurs_at_def toLowerCase_def)
next
  case False
  then show ?thesis by (simp add: occurs_at_def)
qed

lemma matches_at_literals:
  "i \<le> length s \<Longrightarrow>
     matches_at (map Literal w @ as) s i = (occurs_at w s i \<and> matches_at as s (i + length w))"
proof (induction w arbitrary: i)
  case Nil
  then show ?case by (simp add: occurs_at_Nil)
next
  case (Cons c w)
  show ?case
  proof (cases "i < length s")
    case True
    then have "Suc i \<le> length s" by simp
    from Cons.IH [OF this] True show ?thesis
      by (auto simp: occurs_at_Cons canonicalize_eq_iff)
  next
    case False
    then show ?thesis by (simp add: occurs_at_Cons)
  qed
qed

lemma list_ex_upt_cong:
  "(\<And>i. i \<le> n \<Longrightarrow> P i = Q i) \<Longrightarrow> list_ex P [0..<Suc n] = list_ex Q [0..<Suc n]"
  by (auto simp: list_ex_iff)

lemma regexp_test_word:
  "regexp_test (WordBoundary # map Literal w @ [WordBoundary]) s = whole_word_in w s"
  unfolding regexp_test_def whole_word_in_def
  by (rule list_ex_upt_cong) (auto simp: matches_at_literals whole_word_at_def)

lemma regexp_test_literals: "regexp_test (map Literal q) s = contains_ci q s"
  unfolding regexp_test_def contains_ci_def
  using matches_at_literals [of _ s q "[]"]
  by (intro list_ex_upt_cong) simp

lemma RegExp_i_word:
  "plain w \<Longrightarrow> RegExp_i rx (word_pattern w) = Inr (whole_word_in w)"
  by (simp add: RegExp_i_def parse_word_pattern regexp_test_word [abs_def])

lemma RegExp_i_plain: "plain q \<Longrightarrow> RegExp_i rx q = Inr (contains_ci q)"
  by (simp add: RegExp_i_def parse_plain_query regexp_test_literals [abs_def])

lemma some_badWord_plain:
  "list_all plain_term blocked \<Longrightarrow>
     some_badWord rx lowerText clean blocked =
       Inr (list_ex (\<lambda>b. let w = toLowerCase (trim b)
                         in w \<noteq> [] \<and> (whole_word_in w lowerText \<or> whole_word_in w clean)) blocked)"
proof (induction blocked)
  case Nil
  show ?case by simp
next
  case (Cons b blocked)
  then have b: "plain (toLowerCase (trim b))" and rest: "list_all plain_term blocked"
    by (simp_all add: plain_term_def [abs_def])
  from Cons.IH [OF rest] RegExp_i_word [OF b, of rx] show ?case
    by (simp add: Let_def)
qed

lemma containsBadWords_plain_terms:
  "list_all plain_term blocked \<Longrightarrow>
     containsBadWords rx blocked text = Inr (spec_containsBlockedTerm blocked text)"
  by (simp add: containsBadWords_def spec_containsBlockedTerm_def some_badWord_plain Let_def
      split: option.split)

section \<open>The filter does not depend on capitalization\<close>

lemma same_letter_to_lower: "same_letter a b \<Longrightarrow> to_lower a = to_lower b"
  by (auto simp: same_letter_def to_lower_idem)

lemma differ_only_in_case_lower:
  "differ_only_in_case s t \<Longrightarrow> toLowerCase s = toLowerCase t"
  unfolding differ_only_in_case_def toLowerCase_def
  by (induction s t rule: list_all2_induct) (simp_all add: same_letter_to_lower)

lemma differ_only_in_case_empty: "differ_only_in_case s t \<Longrightarrow> (s = []) = (t = [])"
  by (auto simp: differ_only_in_case_def)

text \<open>
  Claim C8. For every word list and every two texts that differ only in the
  capitalization of letters, \<^const>\<open>containsBadWords\<close> gives the same result (the same
  value, or the same error) on both: the text is read only through its lower case.
\<close>

theorem containsBadWords_case_insensitive:
  assumes "differ_only_in_case s t"
  shows "containsBadWords rx badWords (Some s) = containsBadWords rx badWords (Some t)"
  using differ_only_in_case_lower [OF assms] differ_only_in_case_empty [OF assms]
  by (simp add: containsBadWords_def)

theorem containsBadWords_case_insensitive_witness:
  "differ_only_in_case ''Oh DARN it'' ''oh darn IT''
   \<and> containsBadWords no_engine [''darn''] (Some ''Oh DARN it'') = Inr True
   \<and> containsBadWords no_engine [''darn''] (Some ''oh darn IT'') = Inr True"
proof -
  have h: "differ_only_in_case ''Oh DARN it'' ''oh darn IT''" by code_simp
  have v: "containsBadWords no_engine [''darn''] (Some ''oh darn IT'') = Inr True" by code_simp
  from containsBadWords_case_insensitive [OF h, of no_engine "[''darn'']"] h v
  show ?thesis by simp
qed

section \<open>The upload handler\<close>

text \<open>
  Claim C10. The required-field check treats the empty string as missing: a request in
  which one of \<^verbatim>\<open>patternUrl\<close>, \<^verbatim>\<open>patternName\<close>, \<^verbatim>\<open>authorName\<close>, \<^verbatim>\<open>description\<close>, \<^verbatim>\<open>slug\<close>
  is the empty string is answered with status 400 and the missing-field message,
  whatever the collection, the word list and the other fields are, and the collection
  stays as it was. No other check is consulted: the answer does not depend on them.
\<close>

theorem upload_empty_string_is_missing:
  assumes "b_patternUrl body = Some [] \<or> b_patternName body = Some []
           \<or> b_authorName body = Some [] \<or> b_description body = Some []
           \<or> b_slug body = Some []"
  shows "upload rx badWords now db body =
           (db, (400, Error ''Pattern URL, name, author name, and description are required''))"
proof -
  from assms have "missing_required body"
    by (auto simp: missing_required_def falsy_def)
  then show ?thesis by (simp add: upload_def)
qed

theorem upload_empty_string_is_missing_witness:
  "upload no_engine [''darn''] 7 [example_doc] (example_body\<lparr>b_description := Some []\<rparr>) =
     ([example_doc], (400, Error ''Pattern URL, name, author name, and description are required''))"
  using upload_empty_string_is_missing
    [of "example_body\<lparr>b_description := Some []\<rparr>" no_engine "[''darn'']" 7 "[example_doc]"]
  by simp

section \<open>The like handler\<close>

lemma findOne_None_iff: "findOne db s = None \<longleftrightarrow> s \<notin> slug ` set db"
  by (auto simp: findOne_def find_None_iff)

lemma findOne_Some_mem: "findOne db s = Some p \<Longrightarrow> p \<in> set db \<and> slug p = s"
  unfolding findOne_def by (induction db) (auto split: if_splits)

lemma findOne_unique: "unique_slugs db \<Longrightarrow> p \<in> set db \<Longrightarrow> findOne db (slug p) = Some p"
  unfolding findOne_def unique_slugs_def by (induction db) auto

lemma save_liked:
  "unique_slugs db \<Longrightarrow> p \<in> set db \<Longrightarrow>
     save (p\<lparr>likes := likes p + 1\<rparr>) db = map (liked (slug p)) db"
proof (induction db)
  case Nil
  then show ?case by simp
next
  case (Cons q db)
  show ?case
  proof (cases "slug q = slug p")
    case True
    with Cons.prems have notin: "slug p \<notin> slug ` set db"
      by (simp add: unique_slugs_def)
    then have "p \<notin> set db" by blast
    with Cons.prems have qp: "q = p" by simp
    have fresh: "\<forall>x\<in>set db. slug x \<noteq> slug p"
    proof (intro ballI notI)
      fix x assume "x \<in> set db" "slug x = slug p"
      then have "slug p \<in> slug ` set db" by (metis imageI)
      with notin show False by simp
    qed
    from fresh have "map (liked (slug p)) db = db"
      by (induction db) (simp_all add: liked_def)
    moreover have "liked (slug p) p = p\<lparr>likes := likes p + 1\<rparr>"
      by (simp add: liked_def)
    ultimately show ?thesis using qp by simp
  next
    case False
    with Cons.prems have "unique_slugs db" "p \<in> set db"
      by (auto simp: unique_slugs_def)
    moreover from False have "liked (slug p) q = q" by (simp add: liked_def)
    ultimately show ?thesis using False Cons.IH by simp
  qed
qed

lemma slug_liked: "slug (liked s q) = slug q"
  by (simp add: liked_def)

lemma unique_slugs_liked: "unique_slugs db \<Longrightarrow> unique_slugs (map (liked s) db)"
  by (simp add: unique_slugs_def comp_def slug_liked)

declare quantum.simps [simp del]

lemma double_round_exact: "\<bar>x\<bar> \<le> 2 ^ 53 \<Longrightarrow> double_round x = x"
  by (simp add: double_round_def)

lemma plus_one_exact:
  assumes "\<bar>n\<bar> < 2 ^ 53"
  shows "double_round ((if n = 0 then 0 else n) + 1) = n + 1"
proof -
  from assms have "\<bar>n + 1\<bar> \<le> 2 ^ 53" by linarith
  then have "double_round (n + 1) = n + 1" by (rule double_round_exact)
  then show ?thesis by simp
qed

lemma like_existing:
  assumes "unique_slugs db" "p \<in> set db" "\<bar>likes p\<bar> < 2 ^ 53"
  shows "like db (slug p) = (map (liked (slug p)) db, (200, Likes (likes p + 1)))"
  using findOne_unique [OF assms(1,2)] save_liked [OF assms(1,2)] plus_one_exact [OF assms(3)]
  by (simp add: like_def Let_def)

lemma slug_save: "slug p = s \<Longrightarrow> map slug (save p db) = map slug db"
  by (induction db) auto

lemma liked_mem: "p \<in> set db \<Longrightarrow> p\<lparr>likes := likes p + 1\<rparr> \<in> set (map (liked (slug p)) db)"
  by (force simp: liked_def)

text \<open>The handlers keep the slugs of the collection unique.\<close>

lemma like_unique_slugs: "unique_slugs db \<Longrightarrow> unique_slugs (fst (like db s))"
proof (cases "findOne db s")
  case None
  then show "unique_slugs db \<Longrightarrow> ?thesis" by (simp add: like_def)
next
  case (Some p)
  assume u: "unique_slugs db"
  then show ?thesis
    by (simp add: like_def Let_def Some unique_slugs_def slug_save)
qed

lemma upload_unique_slugs:
  assumes "unique_slugs db"
  shows "unique_slugs (fst (upload rx badWords now db body))"
proof (cases "snd (upload rx badWords now db body) = (201, Message ''Pattern uploaded successfully'')")
  case True
  then have none: "findOne db (the (b_slug body)) = None"
    and db': "fst (upload rx badWords now db body) = db @ [new_Pattern now body]"
    by (auto simp: upload_def split: if_splits option.splits sum.splits)
  from none have "the (b_slug body) \<notin> slug ` set db" by (simp add: findOne_None_iff)
  with assms show ?thesis by (simp add: db' unique_slugs_def new_Pattern_def)
next
  case False
  then have "fst (upload rx badWords now db body) = db"
    by (auto simp: upload_def split: if_splits option.splits sum.splits)
  with assms show ?thesis by simp
qed

text \<open>
  Claim C6, as stated, says that the handler stores and answers \<open>n + 1\<close> for every
  like count \<open>n\<close>. The count is a double: at \<open>n = 2 ^ 53\<close> the sum \<open>n + 1\<close> is
  rounded back to \<open>n\<close>, and the handler stores and answers \<open>2 ^ 53\<close> again.
\<close>

theorem like_increments_counterexample:
  "(2 :: int) ^ 53 = 9007199254740992
   \<and> like [example_doc\<lparr>likes := 9007199254740992\<rparr>] ''s1'' =
       ([example_doc\<lparr>likes := 9007199254740992\<rparr>], (200, Likes 9007199254740992))"
  by code_simp

text \<open>
  Claim C6, amended. For a slug without a stored document the handler answers 404. For a
  stored document with slug \<open>s\<close> and like count \<open>n\<close> of magnitude below \<open>2 ^ 53\<close>
  (the slugs of the collection being unique, as the schema's index demands), the handler
  stores the document with like count \<open>n + 1\<close>, leaves the other documents as they were,
  and answers \<open>n + 1\<close>; when \<open>n + 1\<close> is of magnitude below \<open>2 ^ 53\<close> too, a second
  call right after stores and answers \<open>n + 2\<close>.
\<close>

theorem like_increments:
  "(s \<notin> slug ` set db \<longrightarrow> like db s = (db, (404, Error ''Pattern not found'')))
   \<and> (unique_slugs db \<and> p \<in> set db \<and> slug p = s \<and> \<bar>likes p\<bar> < 2 ^ 53 \<longrightarrow>
        like db s = (map (liked s) db, (200, Likes (likes p + 1)))
        \<and> findOne (fst (like db s)) s = Some (p\<lparr>likes := likes p + 1\<rparr>)
        \<and> (\<bar>likes p + 1\<bar> < 2 ^ 53 \<longrightarrow>
             like (fst (like db s)) s = (map (liked s) (map (liked s) db), (200, Likes (likes p + 2)))
             \<and> findOne (fst (like (fst (like db s)) s)) s = Some (p\<lparr>likes := likes p + 2\<rparr>)))"
proof (intro conjI impI)
  assume "s \<notin> slug ` set db"
  then have "findOne db s = None" by (simp add: findOne_None_iff)
  then show "like db s = (db, (404, Error ''Pattern not found''))"
    by (simp add: like_def)
next
  assume a: "unique_slugs db \<and> p \<in> set db \<and> slug p = s \<and> \<bar>likes p\<bar> < 2 ^ 53"
  then have u: "unique_slugs db" and m: "p \<in> set db" and s: "slug p = s"
    and b: "\<bar>likes p\<bar> < 2 ^ 53" by simp_all
  let ?p1 = "p\<lparr>likes := likes p + 1\<rparr>"
  let ?db1 = "map (liked s) db"
  show first: "like db s = (?db1, (200, Likes (likes p + 1)))"
    using like_existing [OF u m b] s by simp
  have u1: "unique_slugs ?db1" by (rule unique_slugs_liked [OF u])
  have m1: "?p1 \<in> set ?db1" using liked_mem [OF m] s by simp
  have s1: "slug ?p1 = s" using s by simp
  show "findOne (fst (like db s)) s = Some ?p1"
    using findOne_unique [OF u1 m1] s first by simp
  assume "\<bar>likes p + 1\<bar> < 2 ^ 53"
  then have b1: "\<bar>likes ?p1\<bar> < 2 ^ 53" by simp
  have second: "like ?db1 s = (map (liked s) ?db1, (200, Likes (likes ?p1 + 1)))"
    using like_existing [OF u1 m1 b1] s1 by simp
  then show "like (fst (like db s)) s = (map (liked s) ?db1, (200, Likes (likes p + 2)))"
    using first by simp
  have eq: "?p1\<lparr>likes := likes ?p1 + 1\<rparr> = p\<lparr>likes := likes p + 2\<rparr>" by simp
  have "?p1\<lparr>likes := likes ?p1 + 1\<rparr> \<in> set (map (liked (slug ?p1)) ?db1)"
    by (rule liked_mem [OF m1])
  then have m2: "p\<lparr>likes := likes p + 2\<rparr> \<in> set (map (liked s) ?db1)"
    by (simp only: s1 eq)
  have u2: "unique_slugs (map (liked s) ?db1)" by (rule unique_slugs_liked [OF u1])
  show "findOne (fst (like (fst (like db s)) s)) s = Some (p\<lparr>likes := likes p + 2\<rparr>)"
    using findOne_unique [OF u2 m2] s second first by simp
qed

theorem like_increments_witness:
  "unique_slugs [example_doc] \<and> example_doc \<in> set [example_doc] \<and> slug example_doc = ''s1''
   \<and> \<bar>likes example_doc\<bar> < 2 ^ 53 \<and> \<bar>likes example_doc + 1\<bar> < 2 ^ 53
   \<and> ''s2'' \<notin> slug ` set [example_doc]
   \<and> like [example_doc] ''s2'' = ([example_doc], (404, Error ''Pattern not found''))
   \<and> like [example_doc] ''s1'' = ([example_doc\<lparr>likes := 1\<rparr>], (200, Likes 1))
   \<and> like (fst (like [example_doc] ''s1'')) ''s1'' = ([example_doc\<lparr>likes := 2\<rparr>], (200, Likes 2))"
proof -
  have l: "likes example_doc = 0"
    by (simp add: example_doc_def new_Pattern_def)
  have h0: "unique_slugs [example_doc] \<and> example_doc \<in> set [example_doc] \<and> slug example_doc = ''s1''"
    by (simp add: unique_slugs_def example_doc_def new_Pattern_def example_body_def)
  have b: "\<bar>likes example_doc\<bar> < 2 ^ 53" and b1: "\<bar>likes example_doc + 1\<bar> < 2 ^ 53"
    by (simp_all add: l)
  from h0 b have h: "unique_slugs [example_doc] \<and> example_doc \<in> set [example_doc]
      \<and> slug example_doc = ''s1'' \<and> \<bar>likes example_doc\<bar> < 2 ^ 53" by simp
  have n: "''s2'' \<notin> slug ` set [example_doc]"
    by (simp add: example_doc_def new_Pattern_def example_body_def)
  have m: "map (liked ''s1'') [example_doc] = [example_doc\<lparr>likes := 1\<rparr>]"
    using h0 l by (simp add: liked_def)
  have m2: "map (liked ''s1'') [example_doc\<lparr>likes := 1\<rparr>] = [example_doc\<lparr>likes := 2\<rparr>]"
    using h0 by (simp add: liked_def)
  from like_increments [of "''s2''" "[example_doc]" example_doc] n
  have a: "like [example_doc] ''s2'' = ([example_doc], (404, Error ''Pattern not found''))"
    by simp
  note r = like_increments [of "''s1''" "[example_doc]" example_doc, THEN conjunct2, rule_format, OF h]
  from r [THEN conjunct1] l m
  have c: "like [example_doc] ''s1'' = ([example_doc\<lparr>likes := 1\<rparr>], (200, Likes 1))"
    by simp
  from r [THEN conjunct2, THEN conjunct2, rule_format, OF b1, THEN conjunct1] l m m2
  have d: "like (fst (like [example_doc] ''s1'')) ''s1'' = ([example_doc\<lparr>likes := 2\<rparr>], (200, Likes 2))"
    by simp
  from h0 b b1 n a c d show ?thesis by (intro conjI) simp_all
qed

section \<open>The order of the checks of the upload handler\<close>

text \<open>
  Claim C7. A request that fails a validation check is answered by the first failing
  check, in the order required fields, duplicate slug, blocked term, file type of the
  document, file type of the thumbnail; the checks before it have passed, and the
  collection is left as it was. Every answer other than 201 leaves the collection
  unchanged (also the answer 500 for an error thrown by the filter).
\<close>

theorem upload_first_failing_check:
  assumes "upload rx badWords now db body = (db', resp)"
  shows "(missing_required body \<longrightarrow>
            db' = db \<and> resp = (400, Error ''Pattern URL, name, author name, and description are required''))
       \<and> (\<not> missing_required body \<and> findOne db (the (b_slug body)) \<noteq> None \<longrightarrow>
            db' = db \<and> resp = (400, Error ''This pattern ID already exists. Please try again.''))
       \<and> (\<not> missing_required body \<and> findOne db (the (b_slug body)) = None
            \<and> bad_words_in_fields rx badWords body = Inr True \<longrightarrow>
            db' = db \<and> resp = (400, Error ''Inappropriate Language Detected''))
       \<and> (\<not> missing_required body \<and> findOne db (the (b_slug body)) = None
            \<and> bad_words_in_fields rx badWords body = Inr False
            \<and> \<not> isValidFileType (the (b_patternUrl body)) \<longrightarrow>
            db' = db \<and> resp = (400, Error ''Invalid file type. Only PDF, DOC, DOCX, and TXT files are allowed.''))
       \<and> (\<not> missing_required body \<and> findOne db (the (b_slug body)) = None
            \<and> bad_words_in_fields rx badWords body = Inr False
            \<and> isValidFileType (the (b_patternUrl body))
            \<and> \<not> falsy (b_thumbnailUrl body) \<and> \<not> isValidThumbnailType (the (b_thumbnailUrl body)) \<longrightarrow>
            db' = db \<and> resp = (400, Error ''Invalid thumbnail file type. Only .webp, .png, .jpeg, and .jpg are allowed.''))
       \<and> (fst resp \<noteq> 201 \<longrightarrow> db' = db)"
proof -
  have c1: "missing_required body \<longrightarrow>
            db' = db \<and> resp = (400, Error ''Pattern URL, name, author name, and description are required'')"
    using assms by (auto simp: upload_def)
  have c2: "\<not> missing_required body \<and> findOne db (the (b_slug body)) \<noteq> None \<longrightarrow>
            db' = db \<and> resp = (400, Error ''This pattern ID already exists. Please try again.'')"
    using assms by (auto simp: upload_def)
  have c3: "\<not> missing_required body \<and> findOne db (the (b_slug body)) = None
            \<and> bad_words_in_fields rx badWords body = Inr True \<longrightarrow>
            db' = db \<and> resp = (400, Error ''Inappropriate Language Detected'')"
    using assms by (auto simp: upload_def)
  have c4: "\<not> missing_required body \<and> findOne db (the (b_slug body)) = None
            \<and> bad_words_in_fields rx badWords body = Inr False
            \<and> \<not> isValidFileType (the (b_patternUrl body)) \<longrightarrow>
            db' = db \<and> resp = (400, Error ''Invalid file type. Only PDF, DOC, DOCX, and TXT files are allowed.'')"
    using assms by (auto simp: upload_def)
  have c5: "\<not> missing_required body \<and> findOne db (the (b_slug body)) = None
            \<and> bad_words_in_fields rx badWords body = Inr False
            \<and> isValidFileType (the (b_patternUrl body))
            \<and> \<not> falsy (b_thumbnailUrl body) \<and> \<not> isValidThumbnailType (the (b_thumbnailUrl body)) \<longrightarrow>
            db' = db \<and> resp = (400, Error ''Invalid thumbnail file type. Only .webp, .png, .jpeg, and .jpg are allowed.'')"
    using assms by (auto simp: upload_def)
  have c6: "fst resp \<noteq> 201 \<longrightarrow> db' = db"
    using assms by (auto simp: upload_def split: if_splits option.splits sum.splits)
  show ?thesis by (intro conjI; fact)
qed

theorem upload_first_failing_check_witness:
  "upload no_engine [''darn''] 1 [example_doc] (example_body\<lparr>b_description := None\<rparr>) =
     ([example_doc], (400, Error ''Pattern URL, name, author name, and description are required''))
   \<and> upload no_engine [''darn''] 1 [example_doc] (example_body\<lparr>b_patternName := Some ''Other''\<rparr>) =
     ([example_doc], (400, Error ''This pattern ID already exists. Please try again.''))
   \<and> upload no_engine [''darn''] 1 [example_doc]
        (example_body\<lparr>b_description := Some ''darn tune'', b_slug := Some ''s2''\<rparr>) =
     ([example_doc], (400, Error ''Inappropriate Language Detected''))
   \<and> upload no_engine [''darn''] 1 [example_doc]
        (example_body\<lparr>b_patternUrl := Some ''a.exe'', b_slug := Some ''s2''\<rparr>) =
     ([example_doc], (400, Error ''Invalid file type. Only PDF, DOC, DOCX, and TXT files are allowed.''))
   \<and> upload no_engine [''darn''] 1 [example_doc]
        (example_body\<lparr>b_slug := Some ''s2'', b_thumbnailUrl := Some ''t.gif''\<rparr>) =
     ([example_doc], (400, Error ''Invalid thumbnail file type. Only .webp, .png, .jpeg, and .jpg are allowed.''))"
proof -
  let ?up = "upload no_engine [''darn''] 1 [example_doc]"
  let ?B1 = "example_body\<lparr>b_description := None\<rparr>"
  let ?B2 = "example_body\<lparr>b_patternName := Some ''Other''\<rparr>"
  let ?B3 = "example_body\<lparr>b_description := Some ''darn tune'', b_slug := Some ''s2''\<rparr>"
  let ?B4 = "example_body\<lparr>b_patternUrl := Some ''a.exe'', b_slug := Some ''s2''\<rparr>"
  let ?B5 = "example_body\<lparr>b_slug := Some ''s2'', b_thumbnailUrl := Some ''t.gif''\<rparr>"
  have pair: "\<And>B. ?up B = (fst (?up B), snd (?up B))" by simp
  have a1: "missing_required ?B1" by code_simp
  have a2: "\<not> missing_required ?B2 \<and> findOne [example_doc] (the (b_slug ?B2)) \<noteq> None"
    by code_simp
  have a3: "\<not> missing_required ?B3 \<and> findOne [example_doc] (the (b_slug ?B3)) = None
            \<and> bad_words_in_fields no_engine [''darn''] ?B3 = Inr True"
    by code_simp
  have a4: "\<not> missing_required ?B4 \<and> findOne [example_doc] (the (b_slug ?B4)) = None
            \<and> bad_words_in_fields no_engine [''darn''] ?B4 = Inr False
            \<and> \<not> isValidFileType (the (b_patternUrl ?B4))"
    by code_simp
  have a5: "\<not> missing_required ?B5 \<and> findOne [example_doc] (the (b_slug ?B5)) = None
            \<and> bad_words_in_fields no_engine [''darn''] ?B5 = Inr False
            \<and> isValidFileType (the (b_patternUrl ?B5))
            \<and> \<not> falsy (b_thumbnailUrl ?B5) \<and> \<not> isValidThumbnailType (the (b_thumbnailUrl ?B5))"
    by code_simp
  from upload_first_failing_check [OF pair [of ?B1], THEN conjunct1, rule_format, OF a1]
  have r1: "?up ?B1 = ([example_doc], (400, Error ''Pattern URL, name, author name, and description are required''))"
    by (simp add: prod_eq_iff)
  from upload_first_failing_check [OF pair [of ?B2], THEN conjunct2, THEN conjunct1, rule_format, OF a2]
  have r2: "?up ?B2 = ([example_doc], (400, Error ''This pattern ID already exists. Please try again.''))"
    by (simp add: prod_eq_iff)
  from upload_first_failing_check [OF pair [of ?B3], THEN conjunct2, THEN conjunct2, THEN conjunct1,
      rule_format, OF a3]
  have r3: "?up ?B3 = ([example_doc], (400, Error ''Inappropriate Language Detected''))"
    by (simp add: prod_eq_iff)
  from upload_first_failing_check [OF pair [of ?B4], THEN conjunct2, THEN conjunct2, THEN conjunct2,
      THEN conjunct1, rule_format, OF a4]
  have r4: "?up ?B4 = ([example_doc], (400, Error ''Invalid file type. Only PDF, DOC, DOCX, and TXT files are allowed.''))"
    by (simp add: prod_eq_iff)
  from upload_first_failing_check [OF pair [of ?B5], THEN conjunct2, THEN conjunct2, THEN conjunct2,
      THEN conjunct2, THEN conjunct1, rule_format, OF a5]
  have r5: "?up ?B5 = ([example_doc], (400, Error ''Invalid thumbnail file type. Only .webp, .png, .jpeg, and .jpg are allowed.''))"
    by (simp add: prod_eq_iff)
  from r1 r2 r3 r4 r5 show ?thesis by (intro conjI)
qed

text \<open>
  Claim C5, as stated, says that every request whose slug is that of a stored document
  is answered with the duplicate-slug error, whatever its other fields are. The
  required-field check comes first: a request with the stored slug and no description
  is answered with the missing-field error.
\<close>

theorem upload_duplicate_slug_counterexample:
  "b_slug (example_body\<lparr>b_description := None\<rparr>) = Some (slug example_doc)
   \<and> upload no_engine [] 1 [example_doc] (example_body\<lparr>b_description := None\<rparr>) =
       ([example_doc], (400, Error ''Pattern URL, name, author name, and description are required''))"
  by code_simp

text \<open>
  Claim C5, amended. Every request that supplies the five required fields (none absent
  or empty) and whose slug is that of a stored document is answered with status 400 and
  the duplicate-slug error, whatever the values of its other fields; the collection is
  left as it was.
\<close>

theorem upload_duplicate_slug:
  assumes "\<not> missing_required body" and "b_slug body = Some s" and "p \<in> set db" and "slug p = s"
  shows "upload rx badWords now db body =
           (db, (400, Error ''This pattern ID already exists. Please try again.''))"
proof -
  from assms(3,4) have "s \<in> slug ` set db" by (metis imageI)
  then have "findOne db s \<noteq> None" by (simp add: findOne_None_iff)
  with assms(1,2) show ?thesis by (auto simp: upload_def)
qed

theorem upload_duplicate_slug_witness:
  "\<not> missing_required (example_body\<lparr>b_patternName := Some ''Other''\<rparr>)
   \<and> b_slug (example_body\<lparr>b_patternName := Some ''Other''\<rparr>) = Some ''s1''
   \<and> example_doc \<in> set [example_doc] \<and> slug example_doc = ''s1''
   \<and> upload no_engine [''darn''] 1 [example_doc] (example_body\<lparr>b_patternName := Some ''Other''\<rparr>) =
       ([example_doc], (400, Error ''This pattern ID already exists. Please try again.''))"
proof -
  let ?B = "example_body\<lparr>b_patternName := Some ''Other''\<rparr>"
  have a: "\<not> missing_required ?B" by code_simp
  have b: "b_slug ?B = Some ''s1''" by code_simp
  have c: "example_doc \<in> set [example_doc]" by simp
  have d: "slug example_doc = ''s1''" by code_simp
  from upload_duplicate_slug [OF a b c d, of no_engine "[''darn'']" 1] a b c d
  show ?thesis by (intro conjI)
qed

text \<open>
  Claim C9, as stated, says that every request whose \<^verbatim>\<open>patternUrl\<close> contains a blocked
  term is answered with the blocked-term error. The required-field and duplicate-slug
  checks come first: such a request with the slug of a stored document is answered with
  the duplicate-slug error.
\<close>

theorem upload_bad_word_in_url_counterexample:
  "containsBadWords no_engine [''darn''] (Some ''darn.pdf'') = Inr True
   \<and> upload no_engine [''darn''] 1 [example_doc] (example_body\<lparr>b_patternUrl := Some ''darn.pdf''\<rparr>) =
       ([example_doc], (400, Error ''This pattern ID already exists. Please try again.''))"
  by code_simp

text \<open>
  Claim C9, amended. The filter is run on \<^verbatim>\<open>patternUrl\<close> too: every request that passes
  the required-field and duplicate-slug checks and whose \<^verbatim>\<open>patternUrl\<close> contains a blocked
  term is answered with status 400 and the blocked-term error, whatever its name, author
  and description are; the collection is left as it was.
\<close>

theorem upload_bad_word_in_url:
  assumes "\<not> missing_required body" and "findOne db (the (b_slug body)) = None"
    and "containsBadWords rx badWords (b_patternUrl body) = Inr True"
  shows "upload rx badWords now db body = (db, (400, Error ''Inappropriate Language Detected''))"
  using assms by (simp add: upload_def bad_words_in_fields_def or_else_def)

theorem upload_bad_word_in_url_witness:
  "\<not> missing_required (example_body\<lparr>b_patternUrl := Some ''darn.pdf'', b_slug := Some ''s2''\<rparr>)
   \<and> findOne [example_doc] ''s2'' = None
   \<and> containsBadWords no_engine [''darn''] (Some ''darn.pdf'') = Inr True
   \<and> containsBadWords no_engine [''darn''] (Some ''Highland Reel'') = Inr False
   \<and> upload no_engine [''darn''] 1 [example_doc]
        (example_body\<lparr>b_patternUrl := Some ''darn.pdf'', b_slug := Some ''s2''\<rparr>) =
       ([example_doc], (400, Error ''Inappropriate Language Detected''))"
proof -
  let ?B = "example_body\<lparr>b_patternUrl := Some ''darn.pdf'', b_slug := Some ''s2''\<rparr>"
  have a: "\<not> missing_required ?B" by code_simp
  have b: "findOne [example_doc] (the (b_slug ?B)) = None" by code_simp
  have b': "findOne [example_doc] ''s2'' = None" by code_simp
  have c: "containsBadWords no_engine [''darn''] (b_patternUrl ?B) = Inr True" by code_simp
  have c': "containsBadWords no_engine [''darn''] (Some ''darn.pdf'') = Inr True" by code_simp
  have d: "containsBadWords no_engine [''darn''] (Some ''Highland Reel'') = Inr False" by code_simp
  from upload_bad_word_in_url [OF a b c, of 1] a b' c' d
  show ?thesis by (intro conjI)
qed

section \<open>The filter against the specification\<close>

text \<open>
  Claim C1. The specification describes the filter as a search for the blocked terms
  themselves: false on an empty or absent text, otherwise true exactly when some term
  (trimmed, lowercased, skipped if empty) occurs as a whole word in the lowercased text
  or in its stripped variant (\<^const>\<open>spec_containsBlockedTerm\<close>). The source's comment
  says the same ("Check for exact word matches using word boundaries"), and for word
  lists whose terms have no syntax character the code does exactly that (lemma
  \<open>containsBadWords_plain_terms\<close>). But a term is put into the pattern unescaped, so a
  term with a syntax character is read as a pattern: with the term \<^verbatim>\<open>b.s\<close> the text
  \<^verbatim>\<open>The bus is late\<close> is reported, although no blocked term occurs in it.
\<close>

theorem containsBadWords_unescaped_term:
  "containsBadWords no_engine [''b.s''] (Some ''The bus is late'') = Inr True
   \<and> spec_containsBlockedTerm [''b.s''] (Some ''The bus is late'') = False"
  by code_simp

lemma length_toLowerCase: "length (toLowerCase s) = length s"
  by (simp add: toLowerCase_def)

lemma toLowerCase_idem: "toLowerCase (toLowerCase s) = toLowerCase s"
  by (simp add: toLowerCase_def to_lower_idem)

lemma toLowerCase_Nil_iff: "toLowerCase s = [] \<longleftrightarrow> s = []"
  by (simp add: toLowerCase_def)

lemma occurs_at_lower_word: "occurs_at (toLowerCase w) s i = occurs_at w s i"
  by (simp add: occurs_at_def length_toLowerCase toLowerCase_idem)

lemma occurs_at_lower_text: "occurs_at w (toLowerCase t) i = occurs_at w t i"
proof -
  have "toLowerCase (take (length w) (drop i (toLowerCase t)))
          = toLowerCase (take (length w) (drop i t))"
    by (simp add: toLowerCase_def take_map drop_map to_lower_idem)
  then show ?thesis by (simp add: occurs_at_def length_toLowerCase)
qed

lemma word_before_lower: "word_before (toLowerCase t) i = word_before t i"
  by (auto simp: word_before_def toLowerCase_def is_word_char_to_lower)

lemma word_after_lower: "word_after (toLowerCase t) i = word_after t i"
  by (auto simp: word_after_def toLowerCase_def is_word_char_to_lower)

lemma standalone_word_in_lower: "standalone_word_in w (toLowerCase t) = standalone_word_in w t"
  by (simp add: standalone_word_in_def standalone_at_def [abs_def] occurs_at_lower_text
      word_before_lower word_after_lower length_toLowerCase)

lemma occurs_first:
  assumes "occurs_at w s i" "w \<noteq> []" "is_word_char (hd w)"
  shows "word_after s i"
proof -
  from assms(2) obtain c w' where w: "w = c # w'" by (cases w) auto
  with assms(1) have "i < length s" and "to_lower (s ! i) = to_lower c"
    by (simp_all add: occurs_at_Cons)
  then have "is_word_char (s ! i) = is_word_char c"
    by (metis is_word_char_to_lower)
  with assms(3) w \<open>i < length s\<close> show ?thesis by (simp add: word_after_def)
qed

lemma occurs_last:
  assumes "occurs_at w s i" "w \<noteq> []" "is_word_char (last w)"
  shows "word_before s (i + length w)"
proof -
  let ?n = "length w"
  from assms(2) have n: "0 < ?n" by simp
  from assms(1) have le: "i + ?n \<le> length s"
    and eq: "map to_lower (take ?n (drop i s)) = map to_lower w"
    by (simp_all add: occurs_at_def toLowerCase_def)
  from eq have "map to_lower (take ?n (drop i s)) ! (?n - 1) = map to_lower w ! (?n - 1)"
    by simp
  with n le have "to_lower (s ! (i + (?n - 1))) = to_lower (w ! (?n - 1))"
    by simp
  moreover from assms(2) have "w ! (?n - 1) = last w" by (simp add: last_conv_nth)
  ultimately have "is_word_char (s ! (i + (?n - 1))) = is_word_char (last w)"
    by (metis is_word_char_to_lower)
  moreover from n have "i + ?n - 1 = i + (?n - 1)" by linarith
  ultimately show ?thesis using assms(3) n le by (simp add: word_before_def)
qed

lemma whole_word_at_wordlike:
  assumes "wordlike w"
  shows "whole_word_at w s i = standalone_at w s i"
proof (cases "occurs_at w s i")
  case True
  from assms have "w \<noteq> []" "is_word_char (hd w)" "is_word_char (last w)"
    by (simp_all add: wordlike_def)
  from occurs_first [OF True this(1,2)] occurs_last [OF True this(1,3)] True
  show ?thesis
    by (simp add: whole_word_at_def standalone_at_def is_word_boundary_def)
next
  case False
  then show ?thesis by (simp add: whole_word_at_def standalone_at_def)
qed

lemma whole_word_in_wordlike:
  assumes "wordlike w"
  shows "whole_word_in (toLowerCase w) s = standalone_word_in w s"
proof -
  have "whole_word_at (toLowerCase w) s = whole_word_at w s"
    by (simp add: whole_word_at_def [abs_def] occurs_at_lower_word length_toLowerCase)
  also have "\<dots> = standalone_at w s"
    using whole_word_at_wordlike [OF assms] by (intro ext)
  finally show ?thesis by (simp add: whole_word_in_def standalone_word_in_def)
qed

lemma standalone_nonempty_text:
  assumes "standalone_word_in w t" "w \<noteq> []"
  shows "t \<noteq> []"
proof
  assume "t = []"
  with assms show False
    by (simp add: standalone_word_in_def standalone_at_def occurs_at_def)
qed

text \<open>
  Claim C2, as stated, says that a term that occurs in the text as a standalone word is
  always found, and that a term that occurs only inside larger words is never found.
  Neither holds. The term \<^verbatim>\<open>darn\<close> occurs in \<^verbatim>\<open>darned d.arn\<close> only inside the word
  \<^verbatim>\<open>darned\<close>, but the stripped variant \<^verbatim>\<open>darned darn\<close> of that text holds it as a word,
  so the filter reports it. And \<^verbatim>\<open>\b\<close> asks for a word character on one side: the term
  \<^verbatim>\<open>@ss\<close>, which begins with another character, is not found in the text \<^verbatim>\<open>@ss\<close>.
\<close>

theorem containsBadWords_standalone_words_counterexample:
  "only_inside_larger_words ''darn'' ''darned d.arn''
   \<and> containsBadWords no_engine [''darn''] (Some ''darned d.arn'') = Inr True
   \<and> standalone_word_in ''@ss'' ''@ss''
   \<and> containsBadWords no_engine [''@ss''] (Some ''@ss'') = Inr False"
  by code_simp

text \<open>
  Claim C2, amended. Let no term of the word list hold a pattern syntax character.
  A term that (once trimmed) begins and ends with a word character and occurs in the
  text as a standalone word is found: the result is true. And when every term that is
  not blank begins and ends with a word character and occurs as a standalone word
  neither in the text nor in the stripped variant of the lowercased text, the result is
  false.
\<close>

theorem containsBadWords_standalone_words:
  assumes "list_all plain_term badWords"
  shows "(b \<in> set badWords \<and> wordlike (trim b) \<and> standalone_word_in (trim b) t \<longrightarrow>
            containsBadWords rx badWords (Some t) = Inr True)
       \<and> ((\<forall>b\<in>set badWords. trim b \<noteq> [] \<longrightarrow>
              wordlike (trim b) \<and> never_standalone (trim b) t
              \<and> never_standalone (trim b) (cleanText (toLowerCase t))) \<longrightarrow>
            containsBadWords rx badWords (Some t) = Inr False)"
proof -
  note code = containsBadWords_plain_terms [OF assms, of rx "Some t"]
  have found: "containsBadWords rx badWords (Some t) = Inr True"
    if b: "b \<in> set badWords" and w: "wordlike (trim b)" and s: "standalone_word_in (trim b) t"
  proof -
    from w have ne: "trim b \<noteq> []" by (simp add: wordlike_def)
    from standalone_nonempty_text [OF s ne] have t: "t \<noteq> []" .
    from s have "whole_word_in (toLowerCase (trim b)) (toLowerCase t)"
      by (simp add: whole_word_in_wordlike [OF w] standalone_word_in_lower)
    with ne b t have "spec_containsBlockedTerm badWords (Some t)"
      by (auto simp: spec_containsBlockedTerm_def list_ex_iff Let_def toLowerCase_Nil_iff)
    with code show ?thesis by simp
  qed
  have clean: "containsBadWords rx badWords (Some t) = Inr False"
    if all: "\<forall>b\<in>set badWords. trim b \<noteq> [] \<longrightarrow>
              wordlike (trim b) \<and> never_standalone (trim b) t
              \<and> never_standalone (trim b) (cleanText (toLowerCase t))"
  proof -
    have "\<not> (let w = toLowerCase (trim b)
              in w \<noteq> [] \<and> (whole_word_in w (toLowerCase t)
                                \<or> whole_word_in w (cleanText (toLowerCase t))))"
      if b: "b \<in> set badWords" for b
    proof (cases "trim b = []")
      case True
      then show ?thesis by (simp add: Let_def toLowerCase_def)
    next
      case False
      with all b have w: "wordlike (trim b)" and n1: "\<not> standalone_word_in (trim b) t"
        and n2: "\<not> standalone_word_in (trim b) (cleanText (toLowerCase t))"
        by (auto simp: never_standalone_def)
      from n1 n2 show ?thesis
        by (simp add: Let_def whole_word_in_wordlike [OF w] standalone_word_in_lower)
    qed
    then have "\<not> spec_containsBlockedTerm badWords (Some t)"
      by (auto simp: spec_containsBlockedTerm_def list_ex_iff)
    with code show ?thesis by simp
  qed
  from found clean show ?thesis by blast
qed

theorem containsBadWords_standalone_words_witness:
  "list_all plain_term [''darn'']
   \<and> wordlike (trim ''darn'') \<and> standalone_word_in (trim ''darn'') ''Oh DARN!''
   \<and> containsBadWords no_engine [''darn''] (Some ''Oh DARN!'') = Inr True
   \<and> never_standalone (trim ''darn'') ''darned''
   \<and> never_standalone (trim ''darn'') (cleanText (toLowerCase ''darned''))
   \<and> containsBadWords no_engine [''darn''] (Some ''darned'') = Inr False"
proof -
  have h: "list_all plain_term [''darn'']" by code_simp
  have w: "wordlike (trim ''darn'')" by code_simp
  have s: "standalone_word_in (trim ''darn'') ''Oh DARN!''" by code_simp
  have n1: "never_standalone (trim ''darn'') ''darned''" by code_simp
  have n2: "never_standalone (trim ''darn'') (cleanText (toLowerCase ''darned''))" by code_simp
  from containsBadWords_standalone_words [OF h, of "''darn''" "''Oh DARN!''" no_engine,
      THEN conjunct1, rule_format] w s
  have a: "containsBadWords no_engine [''darn''] (Some ''Oh DARN!'') = Inr True" by simp
  from containsBadWords_standalone_words [OF h, of _ "''darned''" no_engine,
      THEN conjunct2, rule_format] w n1 n2
  have b: "containsBadWords no_engine [''darn''] (Some ''darned'') = Inr False" by simp
  from h w s a n1 n2 b show ?thesis by (intro conjI)
qed

section \<open>The search handler\<close>

lemma newest_first_sort: "newest_first (sort_newest_first ps)"
proof -
  have "sorted (map (\<lambda>p. - dateUploaded p) (sort_key (\<lambda>p. - dateUploaded p) ps))"
    by (rule sorted_sort_key)
  then show ?thesis
    by (simp add: newest_first_def sort_newest_first_def sorted_map)
qed

lemma mset_sort_newest_first: "mset (sort_newest_first ps) = mset ps"
  by (simp add: sort_newest_first_def)

lemma search_plain:
  assumes "q \<noteq> []" "plain q"
  shows "search rx db (Some q) =
           (200, Patterns (sort_newest_first (filter (spec_search_match q) db)))"
  using assms
  by (simp add: search_def falsy_def RegExp_i_plain spec_search_match_def [abs_def])

lemma search_plain_query:
  "(falsy query \<longrightarrow> search rx db query = (400, Error ''Search query is required''))
   \<and> (q \<noteq> [] \<and> plain q \<longrightarrow>
        (\<exists>rs. search rx db (Some q) = (200, Patterns rs)
              \<and> mset rs = mset (filter (spec_search_match q) db)
              \<and> newest_first rs))"
proof (intro conjI impI)
  assume "falsy query"
  then show "search rx db query = (400, Error ''Search query is required'')"
    by (simp add: search_def)
next
  assume "q \<noteq> [] \<and> plain q"
  then have "search rx db (Some q) =
           (200, Patterns (sort_newest_first (filter (spec_search_match q) db)))"
    by (simp add: search_plain)
  then show "\<exists>rs. search rx db (Some q) = (200, Patterns rs)
              \<and> mset rs = mset (filter (spec_search_match q) db)
              \<and> newest_first rs"
    using newest_first_sort mset_sort_newest_first by blast
qed

text \<open>A query that the constructor of the pattern refuses, \<^verbatim>\<open>(\<close> for one, is answered
  with status 500.\<close>

lemma search_syntax_error:
  "rx ''('' = Inl SyntaxError \<Longrightarrow> search rx db (Some ''('') = (500, Error ''Server error'')"
  by (simp add: search_def falsy_def RegExp_i_def is_syntax_char_def syntax_chars_def)

text \<open>
  Claim C3. The specification describes the search as a search for the query itself: an
  absent or empty query is refused with status 400, and a non-empty query selects exactly
  the documents one of whose three text fields contains it as a substring, letters
  compared without regard to case, newest first. For queries without syntax characters
  the handler does exactly that (lemma \<open>search_plain_query\<close>). But the query is put into
  the pattern unescaped, as the terms of the filter are, so a query with a syntax
  character is read as a pattern: the query \<^verbatim>\<open>.\<close> selects a document none of whose
  fields holds a dot.
\<close>

theorem search_unescaped_query:
  "search no_engine [example_doc] (Some ''.'') = (200, Patterns [example_doc])
   \<and> \<not> spec_search_match ''.'' example_doc"
  by code_simp

section \<open>The file-type validator against the specification\<close>

lemma to_lower_eq_dot: "to_lower c = CHR ''.'' \<longleftrightarrow> c = CHR ''.''"
proof (cases "is_upper c")
  case True
  have "to_lower c \<noteq> CHR ''.''"
  proof
    assume "to_lower c = CHR ''.''"
    then have "(of_char (to_lower c) :: nat) = 46" by simp
    with upper_code [OF True] have "(of_char c :: nat) + 32 = 46" by simp
    moreover from True have "65 \<le> (of_char c :: nat)"
      unfolding is_upper_def Let_def by arith
    ultimately show False by arith
  qed
  moreover have "\<not> is_upper (CHR ''.'')" by (simp add: is_upper_def)
  with True have "c \<noteq> CHR ''.''" by blast
  ultimately show ?thesis by simp
next
  case False
  then show ?thesis by (simp add: to_lower_def)
qed

lemma dot_in_toLowerCase: "CHR ''.'' \<in> set (toLowerCase x) \<longleftrightarrow> CHR ''.'' \<in> set x"
proof
  assume "CHR ''.'' \<in> set (toLowerCase x)"
  then obtain c where c: "c \<in> set x" "to_lower c = CHR ''.''"
    by (auto simp: toLowerCase_def)
  from c(2) have "c = CHR ''.''" by (simp add: to_lower_eq_dot)
  with c(1) show "CHR ''.'' \<in> set x" by simp
next
  assume "CHR ''.'' \<in> set x"
  then have "to_lower (CHR ''.'') \<in> to_lower ` set x" by (rule imageI)
  moreover have "to_lower (CHR ''.'') = CHR ''.''" by (simp add: to_lower_eq_dot)
  ultimately show "CHR ''.'' \<in> set (toLowerCase x)" by (simp add: toLowerCase_def)
qed

text \<open>An extension of the allow-lists: a dot, then at least one character, none a dot.\<close>

lemma dotted_of_lower:
  assumes "toLowerCase e = CHR ''.'' # y" "CHR ''.'' \<notin> set y" "y \<noteq> []"
  shows "\<exists>x. e = CHR ''.'' # x \<and> CHR ''.'' \<notin> set x \<and> x \<noteq> []"
proof -
  from assms(1) obtain c x where e: "e = c # x" and c: "to_lower c = CHR ''.''"
    and x: "toLowerCase x = y"
    by (cases e) (auto simp: toLowerCase_def)
  from c have "c = CHR ''.''" by (simp add: to_lower_eq_dot)
  moreover from x assms(2) have "CHR ''.'' \<notin> set x" by (metis dot_in_toLowerCase)
  moreover from x assms(3) have "x \<noteq> []" by (auto simp: toLowerCase_def)
  ultimately show ?thesis using e by simp
qed

lemma split_last_dot:
  assumes "CHR ''.'' \<in> set b"
  shows "b = rev (drop 1 (dropWhile (\<lambda>c. c \<noteq> CHR ''.'') (rev b)))
             @ CHR ''.'' # rev (takeWhile (\<lambda>c. c \<noteq> CHR ''.'') (rev b))"
proof -
  let ?P = "\<lambda>c. c \<noteq> CHR ''.''"
  from assms have "dropWhile ?P (rev b) \<noteq> []" by (simp add: dropWhile_eq_Nil_conv)
  then obtain d ds where d: "dropWhile ?P (rev b) = d # ds" by (cases "dropWhile ?P (rev b)") auto
  from hd_dropWhile [of ?P "rev b"] \<open>dropWhile ?P (rev b) \<noteq> []\<close> d
  have dd: "d = CHR ''.''" by simp
  have "rev b = takeWhile ?P (rev b) @ dropWhile ?P (rev b)" by simp
  then have "rev (rev b) = rev (takeWhile ?P (rev b) @ d # ds)" by (simp only: d)
  then have "b = rev ds @ d # rev (takeWhile ?P (rev b))" by simp
  with d dd show ?thesis by simp
qed

lemma extname_nonempty:
  assumes "extname p \<noteq> []"
  shows "\<exists>stem. stem \<noteq> [] \<and> last_component p = stem @ extname p"
proof -
  let ?b = "last_component p"
  let ?P = "\<lambda>c. c \<noteq> CHR ''.''"
  from assms have dot: "CHR ''.'' \<in> set ?b"
    and stem: "rev (drop 1 (dropWhile ?P (rev ?b))) \<noteq> []"
    and ext: "extname p = CHR ''.'' # rev (takeWhile ?P (rev ?b))"
    by (auto simp: extname_def Let_def split: if_splits)
  from split_last_dot [OF dot] ext
  have "?b = rev (drop 1 (dropWhile ?P (rev ?b))) @ extname p" by simp
  with stem show ?thesis by blast
qed

lemma extname_split:
  assumes "last_component p = stem @ CHR ''.'' # x" "CHR ''.'' \<notin> set x" "stem \<noteq> []" "x \<noteq> []"
  shows "extname p = CHR ''.'' # x"
proof -
  let ?b = "last_component p"
  let ?P = "\<lambda>c. c \<noteq> CHR ''.''"
  from assms(1) have r: "rev ?b = rev x @ CHR ''.'' # rev stem" by simp
  from assms(2) have allx: "\<forall>c\<in>set (rev x). ?P c" by auto
  have "takeWhile ?P (rev x @ CHR ''.'' # rev stem) = rev x @ takeWhile ?P (CHR ''.'' # rev stem)"
    by (rule takeWhile_append2) (use allx in blast)
  then have tw: "takeWhile ?P (rev ?b) = rev x" by (simp add: r)
  have "dropWhile ?P (rev x @ CHR ''.'' # rev stem) = dropWhile ?P (CHR ''.'' # rev stem)"
    by (rule dropWhile_append2) (use allx in blast)
  then have dw: "dropWhile ?P (rev ?b) = CHR ''.'' # rev stem" by (simp add: r)
  from assms(1) have dot: "CHR ''.'' \<in> set ?b" by simp
  from assms(1,4) have "last ?b = last x" by simp
  moreover have "last x \<noteq> CHR ''.''"
  proof
    assume "last x = CHR ''.''"
    with last_in_set [OF assms(4)] have "CHR ''.'' \<in> set x" by simp
    with assms(2) show False by simp
  qed
  moreover have "last ''..'' = CHR ''.''" by simp
  ultimately have nn: "?b \<noteq> ''..''" by metis
  from dot nn assms(3) show ?thesis
    by (simp add: extname_def Let_def tw dw)
qed

lemma accepted_iff:
  assumes "\<forall>a\<in>set allowed. \<exists>y. a = CHR ''.'' # y \<and> CHR ''.'' \<notin> set y \<and> y \<noteq> []"
  shows "toLowerCase (extname url) \<in> set allowed \<longleftrightarrow>
           (\<exists>stem e. last_component url = stem @ e \<and> stem \<noteq> [] \<and> toLowerCase e \<in> set allowed)"
proof
  assume a: "toLowerCase (extname url) \<in> set allowed"
  with assms have "toLowerCase (extname url) \<noteq> []" by auto
  then have "extname url \<noteq> []" by (auto simp: toLowerCase_def)
  from extname_nonempty [OF this] a
  show "\<exists>stem e. last_component url = stem @ e \<and> stem \<noteq> [] \<and> toLowerCase e \<in> set allowed"
    by blast
next
  assume "\<exists>stem e. last_component url = stem @ e \<and> stem \<noteq> [] \<and> toLowerCase e \<in> set allowed"
  then obtain stem e where b: "last_component url = stem @ e" and s: "stem \<noteq> []"
    and e: "toLowerCase e \<in> set allowed" by blast
  from assms e obtain y where "toLowerCase e = CHR ''.'' # y" "CHR ''.'' \<notin> set y" "y \<noteq> []"
    by blast
  from dotted_of_lower [OF this] obtain x where x: "e = CHR ''.'' # x" "CHR ''.'' \<notin> set x" "x \<noteq> []"
    by blast
  from extname_split [OF b [unfolded x(1)] x(2) s x(3)] have "extname url = e" by (simp add: x(1))
  with e show "toLowerCase (extname url) \<in> set allowed" by simp
qed

text \<open>
  Claim C4, as stated, reads the extension as the substring after the final dot of the
  URL. \<^verbatim>\<open>path.extname\<close> reads it from the last component of the path: the URL
  \<^verbatim>\<open>tune.pdf/\<close> is accepted (the trailing slash is left out), though what follows its
  final dot is \<^verbatim>\<open>pdf/\<close>; and \<^verbatim>\<open>x/.pdf\<close> is rejected (a component that begins with its
  only dot has no extension), though what follows its final dot is \<^verbatim>\<open>pdf\<close>.
\<close>

theorem file_type_validation_counterexample:
  "isValidFileType ''tune.pdf/'' \<and> \<not> spec_accepts validExtensions ''tune.pdf/''
   \<and> \<not> isValidFileType ''x/.pdf'' \<and> spec_accepts validExtensions ''x/.pdf''"
  by code_simp

text \<open>
  Claim C4, amended. A document URL is accepted exactly when its last path component
  (trailing slashes left out) is a non-empty stem followed by an extension that,
  lowercased, is one of \<^verbatim>\<open>.pdf\<close>, \<^verbatim>\<open>.doc\<close>, \<^verbatim>\<open>.docx\<close>, \<^verbatim>\<open>.txt\<close>; every other URL is
  rejected, one without an extension too. In the same way a thumbnail URL that is
  supplied is accepted exactly when that extension is one of \<^verbatim>\<open>.webp\<close>, \<^verbatim>\<open>.png\<close>,
  \<^verbatim>\<open>.jpeg\<close>, \<^verbatim>\<open>.jpg\<close>.
\<close>

theorem file_type_validation:
  "(isValidFileType url \<longleftrightarrow>
      (\<exists>stem e. last_component url = stem @ e \<and> stem \<noteq> []
                \<and> toLowerCase e \<in> set [''.pdf'', ''.doc'', ''.docx'', ''.txt'']))
   \<and> (isValidThumbnailType thumb \<longleftrightarrow>
      (\<exists>stem e. last_component thumb = stem @ e \<and> stem \<noteq> []
                \<and> toLowerCase e \<in> set [''.webp'', ''.png'', ''.jpeg'', ''.jpg'']))"
proof -
  have 1: "\<forall>a\<in>set validExtensions. \<exists>y. a = CHR ''.'' # y \<and> CHR ''.'' \<notin> set y \<and> y \<noteq> []"
    by (simp add: validExtensions_def)
  have 2: "\<forall>a\<in>set validImageExtensions. \<exists>y. a = CHR ''.'' # y \<and> CHR ''.'' \<notin> set y \<and> y \<noteq> []"
    by (simp add: validImageExtensions_def)
  from accepted_iff [OF 1, of url] accepted_iff [OF 2, of thumb] show ?thesis
    by (simp only: isValidFileType_def isValidThumbnailType_def validExtensions_def
        validImageExtensions_def)
qed

theorem file_type_validation_witness:
  "isValidFileType ''files/Tune.PDF''
   \<and> last_component ''files/Tune.PDF'' = ''Tune'' @ ''.PDF''
   \<and> toLowerCase ''.PDF'' \<in> set [''.pdf'', ''.doc'', ''.docx'', ''.txt'']
   \<and> \<not> isValidThumbnailType ''thumb''
   \<and> \<not> (\<exists>stem e. last_component ''thumb'' = stem @ e \<and> stem \<noteq> []
                \<and> toLowerCase e \<in> set [''.webp'', ''.png'', ''.jpeg'', ''.jpg''])"
proof -
  have a: "last_component ''files/Tune.PDF'' = ''Tune'' @ ''.PDF''" by code_simp
  have b: "toLowerCase ''.PDF'' \<in> set [''.pdf'', ''.doc'', ''.docx'', ''.txt'']" by code_simp
  have c: "\<not> isValidThumbnailType ''thumb''" by code_simp
  note t = file_type_validation [of "''files/Tune.PDF''" "''thumb''"]
  from a b have "\<exists>stem e. last_component ''files/Tune.PDF'' = stem @ e \<and> stem \<noteq> []
                \<and> toLowerCase e \<in> set [''.pdf'', ''.doc'', ''.docx'', ''.txt'']"
    by (intro exI [of _ "''Tune''"] exI [of _ "''.PDF''"]) simp
  with t [THEN conjunct1] have v: "isValidFileType ''files/Tune.PDF''" by blast
  from t [THEN conjunct2] c have n: "\<not> (\<exists>stem e. last_component ''thumb'' = stem @ e \<and> stem \<noteq> []
                \<and> toLowerCase e \<in> set [''.webp'', ''.png'', ''.jpeg'', ''.jpg''])"
    by blast
  from v a b c n show ?thesis by (intro conjI)
qed

end
